theory Spec2Isabelle
  imports Complex_Main
begin

section \<open>The transcription job result, as \<open>mp3_to_transcript.py\<close> reads it\<close>

text \<open>
  The payload is a JSON object read through \<open>dict.get\<close> with defaults. A key that the
  code reads with \<open>.get\<close> is an optional field, and \<open>None\<close> stands for the missing key
  only; a key read with a subscript (\<open>segment['speaker_label']\<close>, \<open>item['start_time']\<close>,
  \<open>item['end_time']\<close> of a segment member) is optional as well, and its absence is the
  \<open>KeyError\<close> of the model. A present key holds a value of the JSON type of its field: a
  payload with a key bound to \<open>null\<close>, or to a value of another type, is no value of these
  records. Timestamps are only ever compared for equality (they are dictionary keys), so the
  model is parametric in their type \<open>'t\<close>.
\<close>

text \<open>
  A number of the payload is a Python \<open>int\<close> or a Python \<open>float\<close>. The floats are the
  values of an uninterpreted type: the model computes no float arithmetic. What the code
  computes in floats is returned as the expression it evaluates: \<open>float(n)\<close> of an integer,
  a float as it stands, or \<open>sum(xs) / len(xs)\<close> over a list of floats.
\<close>

typedecl double

datatype number = IntNum int | FloatNum double

datatype py_float = Float_of_int int | Float_value double | Float_mean "py_float list"

record alternative =
  content :: "string option"
  confidence :: "number option"

record 't word_item =
  item_type :: "string option"
  start_time :: "'t option"
  alternatives :: "alternative list option"

record 't label_item =
  seg_start_time :: "'t option"
  seg_end_time :: "'t option"

record 't segment =
  speaker_label :: "string option"
  seg_items :: "'t label_item list option"

record 't speaker_labels_obj =
  segments :: "'t segment list option"

record transcript_chunk =
  chunk_transcript :: "string option"

record 't transcribe_results =
  transcripts :: "transcript_chunk list option"
  items :: "'t word_item list option"
  speaker_labels :: "'t speaker_labels_obj option"
  audio_duration :: "number option"
  language_code :: "string option"

record 't transcript_data =
  results :: "'t transcribe_results option"
  jobName :: "string option"
  status :: "string option"

text \<open>The values the function builds.\<close>

record 't speaker_entry =
  entry_speaker :: string
  entry_end_time :: 't

record turn =
  turn_speaker :: string
  turn_text :: string

record metadata =
  duration_seconds :: py_float
  language :: string
  avg_confidence :: py_float
  job_name :: string
  job_status :: string
  speakers_identified :: nat

record transcript_result =
  transcript :: string
  conversation :: "turn list option"
  result_metadata :: metadata

text \<open>
  The exceptions that can leave the modelled functions. \<open>str_exn\<close> is \<open>str(e)\<close>: for a
  \<open>KeyError\<close> the quoted key, otherwise the message.
\<close>

datatype exn =
  KeyError string | ValueError string | OverflowError string | TranscriptionError string

fun str_exn :: "exn \<Rightarrow> string" where
  "str_exn (KeyError k) = [CHR 0x27] @ k @ [CHR 0x27]"
| "str_exn (ValueError msg) = msg"
| "str_exn (OverflowError msg) = msg"
| "str_exn (TranscriptionError msg) = msg"

section \<open>Helpers of the Python runtime\<close>

text \<open>\<open>sep.join(xs)\<close>\<close>

fun join :: "string \<Rightarrow> string list \<Rightarrow> string" where
  "join sep [] = []"
| "join sep [x] = x"
| "join sep (x # y # ys) = x @ sep @ join sep (y # ys)"

text \<open>\<open>d.get(key, default)\<close>\<close>

definition get_or :: "'a option \<Rightarrow> 'a \<Rightarrow> 'a" where
  "get_or v d = (case v of None \<Rightarrow> d | Some x \<Rightarrow> x)"

text \<open>
  \<open>float(x)\<close>. A float is returned as it is. An integer is converted with rounding to
  nearest, ties to even, and \<open>OverflowError\<close> is raised when the result would leave the
  doubles: the largest double is \<open>2^1024 - 2^971\<close>, so the integers that convert are those of
  absolute value below \<open>2^1024 - 2^970\<close>.
\<close>

definition converts :: "number \<Rightarrow> bool" where
  "converts x =
     (case x of
        IntNum n \<Rightarrow> \<bar>n\<bar> < 2 ^ 1024 - 2 ^ 970
      | FloatNum f \<Rightarrow> True)"

definition float_of :: "number \<Rightarrow> exn + py_float" where
  "float_of x =
     (case x of
        IntNum n \<Rightarrow>
          if \<bar>n\<bar> < 2 ^ 1024 - 2 ^ 970 then Inr (Float_of_int n)
          else Inl (OverflowError ''int too large to convert to float'')
      | FloatNum f \<Rightarrow> Inr (Float_value f))"

section \<open>\<open>_calculate_avg_confidence\<close>\<close>

text \<open>
  The loop of \<open>_calculate_avg_confidence\<close>, with \<open>confidence_values\<close> as the accumulator:
  an item contributes when its type is \<open>pronunciation\<close>, its alternatives are non-empty and
  the first alternative has a \<open>confidence\<close> key; the confidence goes through \<open>float\<close>, which
  can raise.
\<close>

fun confidence_loop :: "'t word_item list \<Rightarrow> py_float list \<Rightarrow> exn + py_float list" where
  "confidence_loop [] confidence_values = Inr confidence_values"
| "confidence_loop (item # rest) confidence_values =
     (if item_type item = Some ''pronunciation'' then
        (case get_or (alternatives item) [] of
           [] \<Rightarrow> confidence_loop rest confidence_values
         | a # _ \<Rightarrow>
             (case confidence a of
                None \<Rightarrow> confidence_loop rest confidence_values
              | Some c \<Rightarrow>
                  (case float_of c of
                     Inl e \<Rightarrow> Inl e
                   | Inr f \<Rightarrow> confidence_loop rest (confidence_values @ [f]))))
      else confidence_loop rest confidence_values)"

text \<open>
  \<open>sum(confidence_values) / len(confidence_values) if confidence_values else 0.0\<close>; the
  float \<open>0.0\<close> is \<open>float(0)\<close>.
\<close>

definition calculate_avg_confidence :: "'t word_item list \<Rightarrow> exn + py_float" where
  "calculate_avg_confidence its =
     (case confidence_loop its [] of
        Inl e \<Rightarrow> Inl e
      | Inr confidence_values \<Rightarrow>
          if confidence_values \<noteq> [] then Inr (Float_mean confidence_values)
          else Inr (Float_of_int 0))"

section \<open>\<open>_process_transcript\<close>\<close>

subsection \<open>The start-time-to-speaker lookup\<close>

type_synonym 't word_speaker_map = "'t \<rightharpoonup> 't speaker_entry"

text \<open>
  The inner loop over one segment's members. The assignment
  \<open>word_speaker_map[item['start_time']] = {'speaker': segment['speaker_label'],
  'end_time': item['end_time']}\<close> evaluates its right-hand side first, then the subscript.
\<close>

fun map_segment_items ::
  "'t segment \<Rightarrow> 't label_item list \<Rightarrow> 't word_speaker_map \<Rightarrow> exn + 't word_speaker_map" where
  "map_segment_items segment [] m = Inr m"
| "map_segment_items segment (item # rest) m =
     (case speaker_label segment of
        None \<Rightarrow> Inl (KeyError ''speaker_label'')
      | Some l \<Rightarrow>
          (case seg_end_time item of
             None \<Rightarrow> Inl (KeyError ''end_time'')
           | Some e \<Rightarrow>
               (case seg_start_time item of
                  None \<Rightarrow> Inl (KeyError ''start_time'')
                | Some s \<Rightarrow>
                    map_segment_items segment rest
                      (m(s \<mapsto> \<lparr>entry_speaker = l, entry_end_time = e\<rparr>)))))"

fun build_word_speaker_map ::
  "'t segment list \<Rightarrow> 't word_speaker_map \<Rightarrow> exn + 't word_speaker_map" where
  "build_word_speaker_map [] m = Inr m"
| "build_word_speaker_map (segment # rest) m =
     (case map_segment_items segment (get_or (seg_items segment) []) m of
        Inl e \<Rightarrow> Inl e
      | Inr m' \<Rightarrow> build_word_speaker_map rest m')"

subsection \<open>The walk over the items\<close>

text \<open>
  The state of the walk: \<open>conversation\<close>, \<open>current_speaker\<close> and \<open>current_text\<close>.
\<close>

type_synonym walk_state = "turn list \<times> string option \<times> string list"

text \<open>\<open>start_time in word_speaker_map\<close>, and the speaker found there.\<close>

definition resolve_speaker :: "'t word_speaker_map \<Rightarrow> 't word_item \<Rightarrow> string option" where
  "resolve_speaker m item =
     (case start_time item of
        None \<Rightarrow> None
      | Some t \<Rightarrow> (case m t of None \<Rightarrow> None | Some e \<Rightarrow> Some (entry_speaker e)))"

text \<open>
  The body of \<open>if start_time in word_speaker_map\<close>: the running turn is saved when the
  speaker changed, a current speaker exists and words are buffered; then the current speaker
  is set.
\<close>

fun set_speaker :: "string \<Rightarrow> walk_state \<Rightarrow> walk_state" where
  "set_speaker speaker (conv, None, current_text) = (conv, Some speaker, current_text)"
| "set_speaker speaker (conv, Some cur, current_text) =
     (if speaker \<noteq> cur \<and> current_text \<noteq> []
      then (conv @ [\<lparr>turn_speaker = cur, turn_text = join '' '' current_text\<rparr>], Some speaker, [])
      else (conv, Some speaker, current_text))"

text \<open>
  The best alternative: \<open>alternatives[0].get('content', '')\<close> is appended when the item has
  alternatives. This statement stands after the \<open>if\<close>, not inside it.
\<close>

fun append_word :: "'t word_item \<Rightarrow> walk_state \<Rightarrow> walk_state" where
  "append_word item (conv, cur, current_text) =
     (case get_or (alternatives item) [] of
        [] \<Rightarrow> (conv, cur, current_text)
      | a # _ \<Rightarrow> (conv, cur, current_text @ [get_or (content a) '''']))"

definition walk_item :: "'t word_speaker_map \<Rightarrow> walk_state \<Rightarrow> 't word_item \<Rightarrow> walk_state" where
  "walk_item m st item =
     (if item_type item \<noteq> Some ''pronunciation'' then st
      else append_word item
             (case resolve_speaker m item of
                None \<Rightarrow> st
              | Some speaker \<Rightarrow> set_speaker speaker st))"

fun walk_items :: "'t word_speaker_map \<Rightarrow> 't word_item list \<Rightarrow> walk_state \<Rightarrow> walk_state" where
  "walk_items m [] st = st"
| "walk_items m (item # rest) st = walk_items m rest (walk_item m st item)"

text \<open>
  \<open>if current_speaker and current_text\<close>: the last turn is added when the current speaker is
  a non-empty string and words are buffered.
\<close>

fun add_last_segment :: "walk_state \<Rightarrow> turn list" where
  "add_last_segment (conv, None, current_text) = conv"
| "add_last_segment (conv, Some cur, current_text) =
     (if cur \<noteq> [] \<and> current_text \<noteq> []
      then conv @ [\<lparr>turn_speaker = cur, turn_text = join '' '' current_text\<rparr>]
      else conv)"

definition build_conversation :: "'t word_speaker_map \<Rightarrow> 't word_item list \<Rightarrow> turn list" where
  "build_conversation m its = add_last_segment (walk_items m its ([], None, []))"

definition format_segment :: "turn \<Rightarrow> string" where
  "format_segment seg =
     (if turn_speaker seg = ''spk_0'' then ''Doctor'' else ''Patient'') @ '': '' @ turn_text seg"

definition newline :: string where
  "newline = [CHR 0x0A]"

subsection \<open>Metadata and result\<close>

text \<open>The generator \<open>seg['speaker_label'] for seg in speaker_labels\<close>.\<close>

fun segment_label_list :: "'t segment list \<Rightarrow> exn + string list" where
  "segment_label_list [] = Inr []"
| "segment_label_list (seg # rest) =
     (case speaker_label seg of
        None \<Rightarrow> Inl (KeyError ''speaker_label'')
      | Some l \<Rightarrow>
          (case segment_label_list rest of
             Inl e \<Rightarrow> Inl e
           | Inr ls \<Rightarrow> Inr (l # ls)))"

definition empty_results :: "'t transcribe_results" where
  "empty_results =
     \<lparr>transcripts = None, items = None, speaker_labels = None,
      audio_duration = None, language_code = None\<rparr>"

definition get_results :: "'t transcript_data \<Rightarrow> 't transcribe_results" where
  "get_results transcript_data = get_or (results transcript_data) empty_results"

definition get_items :: "'t transcript_data \<Rightarrow> 't word_item list" where
  "get_items transcript_data = get_or (items (get_results transcript_data)) []"

definition get_segments :: "'t transcript_data \<Rightarrow> 't segment list" where
  "get_segments transcript_data =
     get_or (segments (get_or (speaker_labels (get_results transcript_data))
                         \<lparr>segments = None\<rparr>)) []"

definition full_transcript :: "'t transcript_data \<Rightarrow> string" where
  "full_transcript transcript_data =
     join '' '' (map (\<lambda>t. get_or (chunk_transcript t) '''')
                    (get_or (transcripts (get_results transcript_data)) []))"

text \<open>
  The \<open>if speaker_labels: ... else: ...\<close> statement: the formatted text and the conversation
  (unbound on the else branch, where the result takes \<open>None\<close>).
\<close>

definition format_transcript :: "'t transcript_data \<Rightarrow> exn + string \<times> turn list option" where
  "format_transcript transcript_data =
     (let its = get_items transcript_data;
          segs = get_segments transcript_data
      in if segs \<noteq> [] then
           (case build_word_speaker_map segs Map.empty of
              Inl e \<Rightarrow> Inl e
            | Inr m \<Rightarrow>
                (let conv = build_conversation m its
                 in Inr (join newline (map format_segment conv), Some conv)))
         else Inr (full_transcript transcript_data, None))"

definition count_speakers :: "'t segment list \<Rightarrow> exn + nat" where
  "count_speakers segs =
     (if segs \<noteq> [] then
        (case segment_label_list segs of
           Inl e \<Rightarrow> Inl e
         | Inr ls \<Rightarrow> Inr (card (set ls)))
      else Inr 0)"

text \<open>
  The metadata dictionary is built in the order of its keys: \<open>float\<close> of the duration (0 when
  the key is missing), the language, the average confidence, the job name and status, the
  count of speakers. The first of them that raises ends the body.
\<close>

definition process_body :: "'t transcript_data \<Rightarrow> exn + transcript_result" where
  "process_body transcript_data =
     (case format_transcript transcript_data of
        Inl e \<Rightarrow> Inl e
      | Inr (formatted_text, conv) \<Rightarrow>
          (case float_of (get_or (audio_duration (get_results transcript_data)) (IntNum 0)) of
             Inl e \<Rightarrow> Inl e
           | Inr duration \<Rightarrow>
               (case calculate_avg_confidence (get_items transcript_data) of
                  Inl e \<Rightarrow> Inl e
                | Inr conf \<Rightarrow>
                    (case count_speakers (get_segments transcript_data) of
                       Inl e \<Rightarrow> Inl e
                     | Inr n \<Rightarrow>
                         Inr \<lparr>transcript = formatted_text,
                              conversation = conv,
                              result_metadata =
                                \<lparr>duration_seconds = duration,
                                 language =
                                   get_or (language_code (get_results transcript_data))
                                     ''en-US'',
                                 avg_confidence = conf,
                                 job_name = get_or (jobName transcript_data) '''',
                                 job_status = get_or (status transcript_data) '''',
                                 speakers_identified = n\<rparr>\<rparr>))))"

text \<open>The \<open>try\<close>/\<open>except Exception\<close> around the body.\<close>

definition process_transcript :: "'t transcript_data \<Rightarrow> exn + transcript_result" where
  "process_transcript transcript_data =
     (case process_body transcript_data of
        Inl e \<Rightarrow> Inl (TranscriptionError (''Failed to process transcript: '' @ str_exn e))
      | Inr r \<Rightarrow> Inr r)"

section \<open>\<open>_wait_for_transcription_job\<close>\<close>

text \<open>
  What one call of \<open>get_transcription_job\<close> does: it raises \<open>ClientError\<close> or answers with
  the job. The service is a sequence of such outcomes, one per call. The trace records each
  status check and each \<open>time.sleep\<close> that is carried out.
\<close>

record transcription_job =
  TranscriptionJobStatus :: string
  FailureReason :: "string option"
  TranscriptFileUri :: "string option"

datatype poll_outcome = Responds transcription_job | RaisesClientError string

datatype event = Check | Sleep int

text \<open>
  \<open>time.sleep(d)\<close> of an integer number of seconds. The delay is first converted to the
  clock's C type, which raises \<open>OverflowError\<close> beyond the largest number of seconds that
  type holds (\<open>sleep_limit\<close>, a constant of the platform: 9223372036 for a 64-bit count of
  nanoseconds); a negative delay then raises \<open>ValueError\<close>. Neither is caught by
  \<open>except ClientError\<close>.
\<close>

definition py_sleep :: "int \<Rightarrow> int \<Rightarrow> exn option" where
  "py_sleep sleep_limit d =
     (if d < - sleep_limit \<or> sleep_limit < d
      then Some (OverflowError ''timestamp too large to convert to C _PyTime_t'')
      else if d < 0 then Some (ValueError ''sleep length must be non-negative'')
      else None)"

fun wait_loop ::
  "int \<Rightarrow> (nat \<Rightarrow> poll_outcome) \<Rightarrow> int \<Rightarrow> string \<Rightarrow> nat \<Rightarrow> nat \<Rightarrow> event list
     \<Rightarrow> (exn + transcription_job) \<times> event list" where
  "wait_loop sleep_limit poll retry_delay name 0 retry trace =
     (Inl (TranscriptionError
        (''Transcription job '' @ name @ '' did not complete within the allowed time'')), trace)"
| "wait_loop sleep_limit poll retry_delay name (Suc remaining) retry trace =
     (case poll retry of
        RaisesClientError msg \<Rightarrow>
          (Inl (TranscriptionError (''Error checking transcription job: '' @ msg)),
           trace @ [Check])
      | Responds job \<Rightarrow>
          if TranscriptionJobStatus job = ''COMPLETED'' then (Inr job, trace @ [Check])
          else if TranscriptionJobStatus job = ''FAILED'' then
            (Inl (TranscriptionError
               (''Transcription job failed: '' @ get_or (FailureReason job) ''Unknown reason'')),
             trace @ [Check])
          else if TranscriptionJobStatus job = ''IN_PROGRESS'' then
            (case py_sleep sleep_limit retry_delay of
               Some e \<Rightarrow> (Inl e, trace @ [Check])
             | None \<Rightarrow>
                 wait_loop sleep_limit poll retry_delay name remaining (Suc retry)
                   (trace @ [Check, Sleep retry_delay]))
          else
            (case py_sleep sleep_limit retry_delay of
               Some e \<Rightarrow> (Inl e, trace @ [Check])
             | None \<Rightarrow>
                 wait_loop sleep_limit poll retry_delay name remaining (Suc retry)
                   (trace @ [Check, Sleep retry_delay])))"

text \<open>\<open>for retry in range(self.max_retries)\<close>: no iteration when \<open>max_retries \<le> 0\<close>.\<close>

definition wait_for_transcription_job ::
  "int \<Rightarrow> int \<Rightarrow> int \<Rightarrow> (nat \<Rightarrow> poll_outcome) \<Rightarrow> string
     \<Rightarrow> (exn + transcription_job) \<times> event list" where
  "wait_for_transcription_job sleep_limit max_retries retry_delay poll name =
     wait_loop sleep_limit poll retry_delay name (nat max_retries) 0 []"

section \<open>Notions of the specification\<close>

text \<open>
  A segment claims a start time when one of its members carries it. A payload is well typed
  when every key the code reads with a subscript is present: each segment has its
  \<open>speaker_label\<close> and each member its \<open>start_time\<close> and \<open>end_time\<close>. The other fields are
  typed by the records above.
\<close>

definition claims_time :: "'t segment \<Rightarrow> 't \<Rightarrow> bool" where
  "claims_time seg t = (Some t \<in> set (map seg_start_time (get_or (seg_items seg) [])))"

definition well_formed_segment :: "'t segment \<Rightarrow> bool" where
  "well_formed_segment seg =
     (speaker_label seg \<noteq> None \<and>
      list_all (\<lambda>li. seg_start_time li \<noteq> None \<and> seg_end_time li \<noteq> None)
        (get_or (seg_items seg) []))"

definition well_typed :: "'t transcript_data \<Rightarrow> bool" where
  "well_typed transcript_data = list_all well_formed_segment (get_segments transcript_data)"

text \<open>
  The numbers the code passes to \<open>float\<close>: the duration (0 when the key is missing) and the
  confidence of the first alternative of each pronunciation item that has one. They convert
  when none of them is an integer beyond the doubles.
\<close>

definition carried_confidence :: "'t word_item \<Rightarrow> number option" where
  "carried_confidence item =
     (if item_type item = Some ''pronunciation'' then
        (case get_or (alternatives item) [] of
           [] \<Rightarrow> None
         | a # _ \<Rightarrow> confidence a)
      else None)"

definition confidence_converts :: "'t word_item \<Rightarrow> bool" where
  "confidence_converts item =
     (case carried_confidence item of None \<Rightarrow> True | Some c \<Rightarrow> converts c)"

definition numbers_convert :: "'t transcript_data \<Rightarrow> bool" where
  "numbers_convert transcript_data =
     (converts (get_or (audio_duration (get_results transcript_data)) (IntNum 0)) \<and>
      list_all confidence_converts (get_items transcript_data))"

text \<open>
  The items of the walk: an item is spoken when it is a pronunciation with at least one
  alternative, and then \<open>word_of\<close> is the word the walk appends for it.
\<close>

definition is_pronunciation :: "'t word_item \<Rightarrow> bool" where
  "is_pronunciation item = (item_type item = Some ''pronunciation'')"

definition spoken :: "'t word_item \<Rightarrow> bool" where
  "spoken item = (is_pronunciation item \<and> get_or (alternatives item) [] \<noteq> [])"

definition word_of :: "'t word_item \<Rightarrow> string" where
  "word_of item =
     (case get_or (alternatives item) [] of
        [] \<Rightarrow> []
      | a # _ \<Rightarrow> get_or (content a) [])"

text \<open>
  The speakers of the pronunciation items that resolve in the lookup, in item order, and the
  last of them: the current speaker when the walk ends.
\<close>

definition resolved_speakers :: "'t word_speaker_map \<Rightarrow> 't word_item list \<Rightarrow> string list" where
  "resolved_speakers m its =
     List.map_filter (resolve_speaker m) (filter is_pronunciation its)"

definition final_speaker :: "'t word_speaker_map \<Rightarrow> 't word_item list \<Rightarrow> string option" where
  "final_speaker m its =
     (if resolved_speakers m its = [] then None else Some (last (resolved_speakers m its)))"

text \<open>The claimed conversation words: those of the spoken items that resolve.\<close>

definition resolved_words :: "'t word_speaker_map \<Rightarrow> 't word_item list \<Rightarrow> string list" where
  "resolved_words m its =
     map word_of (filter (\<lambda>item. spoken item \<and> resolve_speaker m item \<noteq> None) its)"

subsection \<open>The walk with the items kept\<close>

text \<open>
  The same walk with each buffered word replaced by the item it came from, so that a turn is
  a speaker with a group of items; \<open>render\<close> maps such a state to the state of the code.
\<close>

type_synonym 't group_state =
  "(string \<times> 't word_item list) list \<times> string option \<times> 't word_item list"

fun set_speaker_g :: "string \<Rightarrow> 't group_state \<Rightarrow> 't group_state" where
  "set_speaker_g speaker (groups, None, buf) = (groups, Some speaker, buf)"
| "set_speaker_g speaker (groups, Some cur, buf) =
     (if speaker \<noteq> cur \<and> buf \<noteq> []
      then (groups @ [(cur, buf)], Some speaker, [])
      else (groups, Some speaker, buf))"

fun append_item_g :: "'t word_item \<Rightarrow> 't group_state \<Rightarrow> 't group_state" where
  "append_item_g item (groups, cur, buf) =
     (if get_or (alternatives item) [] = [] then (groups, cur, buf)
      else (groups, cur, buf @ [item]))"

definition walk_item_g :: "'t word_speaker_map \<Rightarrow> 't group_state \<Rightarrow> 't word_item \<Rightarrow> 't group_state" where
  "walk_item_g m gs item =
     (if \<not> is_pronunciation item then gs
      else append_item_g item
             (case resolve_speaker m item of
                None \<Rightarrow> gs
              | Some speaker \<Rightarrow> set_speaker_g speaker gs))"

fun walk_items_g :: "'t word_speaker_map \<Rightarrow> 't word_item list \<Rightarrow> 't group_state \<Rightarrow> 't group_state" where
  "walk_items_g m [] gs = gs"
| "walk_items_g m (item # rest) gs = walk_items_g m rest (walk_item_g m gs item)"

fun add_last_g :: "'t group_state \<Rightarrow> (string \<times> 't word_item list) list" where
  "add_last_g (groups, None, buf) = groups"
| "add_last_g (groups, Some cur, buf) =
     (if cur \<noteq> [] \<and> buf \<noteq> [] then groups @ [(cur, buf)] else groups)"

definition turn_groups :: "'t word_speaker_map \<Rightarrow> 't word_item list \<Rightarrow> (string \<times> 't word_item list) list" where
  "turn_groups m its = add_last_g (walk_items_g m its ([], None, []))"

definition render_turn :: "string \<times> 't word_item list \<Rightarrow> turn" where
  "render_turn g = \<lparr>turn_speaker = fst g, turn_text = join '' '' (map word_of (snd g))\<rparr>"

fun render :: "'t group_state \<Rightarrow> walk_state" where
  "render (groups, cur, buf) = (map render_turn groups, cur, map word_of buf)"

fun flat :: "'t group_state \<Rightarrow> 't word_item list" where
  "flat (groups, cur, buf) = concat (map snd groups) @ buf"

definition group_ok :: "'t word_speaker_map \<Rightarrow> string \<times> 't word_item list \<Rightarrow> bool" where
  "group_ok m g =
     (snd g \<noteq> [] \<and>
      (\<forall>item \<in> set (snd g).
         resolve_speaker m item = None \<or> resolve_speaker m item = Some (fst g)))"

fun invar :: "'t word_speaker_map \<Rightarrow> 't group_state \<Rightarrow> bool" where
  "invar m (groups, cur, buf) =
     ((\<forall>g \<in> set groups. group_ok m g) \<and>
      (\<forall>item \<in> set buf. resolve_speaker m item = None \<or> resolve_speaker m item = cur))"

fun cur_of :: "'t group_state \<Rightarrow> string option" where
  "cur_of (groups, cur, buf) = cur"

subsection \<open>Polling\<close>






section \<open>Example payloads\<close>

definition word_at :: "real \<Rightarrow> string \<Rightarrow> int \<Rightarrow> real word_item" where
  "word_at t w c =
     \<lparr>item_type = Some ''pronunciation'', start_time = Some t,
      alternatives = Some [\<lparr>content = Some w, confidence = Some (IntNum c)\<rparr>]\<rparr>"

definition label_at :: "real \<Rightarrow> real \<Rightarrow> real label_item" where
  "label_at s e = \<lparr>seg_start_time = Some s, seg_end_time = Some e\<rparr>"

definition segment_of :: "string \<Rightarrow> real label_item list \<Rightarrow> real segment" where
  "segment_of l members = \<lparr>speaker_label = Some l, seg_items = Some members\<rparr>"

definition payload_with ::
  "real word_item list \<Rightarrow> real segment list \<Rightarrow> number option \<Rightarrow> real transcript_data" where
  "payload_with its segs duration =
     \<lparr>results = Some \<lparr>transcripts = None, items = Some its,
                       speaker_labels = Some \<lparr>segments = Some segs\<rparr>,
                       audio_duration = duration, language_code = None\<rparr>,
      jobName = None, status = None\<rparr>"

definition payload_of :: "real word_item list \<Rightarrow> real segment list \<Rightarrow> real transcript_data" where
  "payload_of its segs = payload_with its segs None"

definition ex_plain :: "real transcript_data" where
  "ex_plain = payload_of [word_at 0 ''Hello'' 1, word_at 1 ''world'' 1] []"

definition ex_plain_result :: transcript_result where
  "ex_plain_result =
     \<lparr>transcript = [], conversation = None,
      result_metadata =
        \<lparr>duration_seconds = Float_of_int 0, language = ''en-US'',
         avg_confidence = Float_mean [Float_of_int 1, Float_of_int 1],
         job_name = [], job_status = [], speakers_identified = 0\<rparr>\<rparr>"

definition ex_huge_duration :: "real transcript_data" where
  "ex_huge_duration =
     payload_with [word_at 0 ''Hello'' 1] [segment_of ''spk_0'' [label_at 0 1]]
       (Some (IntNum (10 ^ 400)))"

definition ex_leading :: "real transcript_data" where
  "ex_leading = payload_of [word_at 5 ''B'' 1, word_at 0 ''A'' 1] [segment_of ''spk_0'' [label_at 0 1]]"

definition ex_leading_result :: transcript_result where
  "ex_leading_result =
     \<lparr>transcript = ''Doctor: B A'',
      conversation = Some [\<lparr>turn_speaker = ''spk_0'', turn_text = ''B A''\<rparr>],
      result_metadata =
        \<lparr>duration_seconds = Float_of_int 0, language = ''en-US'',
         avg_confidence = Float_mean [Float_of_int 1, Float_of_int 1],
         job_name = [], job_status = [], speakers_identified = 1\<rparr>\<rparr>"

definition ex_two :: "real transcript_data" where
  "ex_two = payload_of [word_at 0 ''Hi'' 1, word_at 1 ''there'' 1, word_at 2 ''Hello'' 1]
              [segment_of ''spk_0'' [label_at 0 1, label_at 1 2], segment_of ''spk_1'' [label_at 2 3]]"

definition ex_unmatched :: "real transcript_data" where
  "ex_unmatched = payload_of [word_at 0 ''A'' 1, word_at 5 ''B'' 1] [segment_of ''spk_0'' [label_at 0 1]]"

definition ex_two_result :: transcript_result where
  "ex_two_result =
     \<lparr>transcript = ''Doctor: Hi there'' @ [CHR 0x0A] @ ''Patient: Hello'',
      conversation = Some [\<lparr>turn_speaker = ''spk_0'', turn_text = ''Hi there''\<rparr>,
                           \<lparr>turn_speaker = ''spk_1'', turn_text = ''Hello''\<rparr>],
      result_metadata =
        \<lparr>duration_seconds = Float_of_int 0, language = ''en-US'',
         avg_confidence = Float_mean [Float_of_int 1, Float_of_int 1, Float_of_int 1],
         job_name = [], job_status = [], speakers_identified = 2\<rparr>\<rparr>"

definition ex_collision_map :: "real word_speaker_map" where
  "ex_collision_map =
     [0 \<mapsto> \<lparr>entry_speaker = ''spk_0'', entry_end_time = 1\<rparr>,
      1 \<mapsto> \<lparr>entry_speaker = ''spk_1'', entry_end_time = 3\<rparr>]"

definition ex_unmatched_map :: "real word_speaker_map" where
  "ex_unmatched_map = [0 \<mapsto> \<lparr>entry_speaker = ''spk_0'', entry_end_time = 1\<rparr>]"

definition ex_none :: "real transcript_data" where
  "ex_none = payload_of [word_at 7 ''A'' 1, word_at 8 ''B'' 1] [segment_of ''spk_0'' [label_at 0 1]]"

definition ex_none_result :: transcript_result where
  "ex_none_result =
     \<lparr>transcript = [], conversation = Some [],
      result_metadata =
        \<lparr>duration_seconds = Float_of_int 0, language = ''en-US'',
         avg_confidence = Float_mean [Float_of_int 1, Float_of_int 1],
         job_name = [], job_status = [], speakers_identified = 1\<rparr>\<rparr>"

definition ex_unmatched_result :: transcript_result where
  "ex_unmatched_result =
     \<lparr>transcript = ''Doctor: A B'',
      conversation = Some [\<lparr>turn_speaker = ''spk_0'', turn_text = ''A B''\<rparr>],
      result_metadata =
        \<lparr>duration_seconds = Float_of_int 0, language = ''en-US'',
         avg_confidence = Float_mean [Float_of_int 1, Float_of_int 1],
         job_name = [], job_status = [], speakers_identified = 1\<rparr>\<rparr>"

definition ex_missing_label :: "real transcript_data" where
  "ex_missing_label =
     payload_of [word_at 0 ''A'' 1] [\<lparr>speaker_label = None, seg_items = Some [label_at 0 1]\<rparr>]"

definition job_of :: "string \<Rightarrow> transcription_job" where
  "job_of st = \<lparr>TranscriptionJobStatus = st, FailureReason = None, TranscriptFileUri = None\<rparr>"

definition ex_poll :: "nat \<Rightarrow> poll_outcome" where
  "ex_poll i = Responds (job_of ''IN_PROGRESS'')"


definition ex_sleep_limit :: int where
  "ex_sleep_limit = 9223372036"

section \<open>Evaluation\<close>

lemmas ev = word_at_def label_at_def segment_of_def payload_of_def payload_with_def
  ex_plain_def ex_two_def ex_unmatched_def
  process_transcript_def process_body_def format_transcript_def count_speakers_def
  get_segments_def get_items_def get_results_def get_or_def full_transcript_def
  build_conversation_def walk_item_def resolve_speaker_def format_segment_def newline_def
  calculate_avg_confidence_def float_of_def empty_results_def Let_def

lemmas ev2 = ev ex_none_def ex_leading_def ex_unmatched_map_def is_pronunciation_def spoken_def
  word_of_def resolved_words_def render_turn_def


section \<open>The conversions to float\<close>

lemma float_of_returns: "(\<exists>f. float_of x = Inr f) \<longleftrightarrow> converts x"
  by (cases x) (auto simp: float_of_def converts_def)

lemma confidence_loop_returns:
  "(\<exists>cs. confidence_loop its acc = Inr cs) \<longleftrightarrow> list_all confidence_converts its"
proof (induction its arbitrary: acc)
  case Nil
  show ?case by simp
next
  case (Cons item its)
  show ?case
  proof (cases "carried_confidence item")
    case None
    then have "confidence_loop (item # its) acc = confidence_loop its acc"
      by (auto simp: carried_confidence_def split: if_splits list.splits)
    with None Cons.IH [of acc] show ?thesis
      by (simp add: confidence_converts_def)
  next
    case (Some c)
    then have step: "confidence_loop (item # its) acc =
        (case float_of c of Inl e \<Rightarrow> Inl e | Inr f \<Rightarrow> confidence_loop its (acc @ [f]))"
      by (auto simp: carried_confidence_def split: if_splits list.splits)
    show ?thesis
    proof (cases "float_of c")
      case (Inl e)
      with float_of_returns [of c] have "\<not> converts c" by auto
      with Some Inl step show ?thesis by (simp add: confidence_converts_def)
    next
      case (Inr f)
      with float_of_returns [of c] have "converts c" by auto
      with Some Inr step Cons.IH [of "acc @ [f]"] show ?thesis
        by (simp add: confidence_converts_def)
    qed
  qed
qed

lemma calculate_avg_confidence_returns:
  "(\<exists>f. calculate_avg_confidence its = Inr f) \<longleftrightarrow> list_all confidence_converts its"
proof -
  have "(\<exists>f. calculate_avg_confidence its = Inr f) \<longleftrightarrow> (\<exists>cs. confidence_loop its [] = Inr cs)"
    by (auto simp: calculate_avg_confidence_def split: sum.splits)
  then show ?thesis by (simp add: confidence_loop_returns)
qed

section \<open>The start-time-to-speaker lookup\<close>

lemma map_segment_items_lookup:
  "map_segment_items seg lis m = Inr m' \<Longrightarrow>
     (if Some t \<in> set (map seg_start_time lis)
      then (\<exists>e. m' t = Some e \<and> speaker_label seg = Some (entry_speaker e))
      else m' t = m t)"
proof (induction lis arbitrary: m)
  case Nil
  then show ?case by simp
next
  case (Cons li lis)
  from Cons.prems obtain l e s where
    l: "speaker_label seg = Some l" and e: "seg_end_time li = Some e"
    and s: "seg_start_time li = Some s"
    and rest: "map_segment_items seg lis (m(s \<mapsto> \<lparr>entry_speaker = l, entry_end_time = e\<rparr>)) = Inr m'"
    by (auto split: option.splits)
  from Cons.IH [OF rest] show ?case
    using l s by (auto split: if_splits)
qed

lemma build_append:
  "build_word_speaker_map (xs @ ys) m =
     (case build_word_speaker_map xs m of
        Inl e \<Rightarrow> Inl e
      | Inr m' \<Rightarrow> build_word_speaker_map ys m')"
  by (induction xs arbitrary: m) (auto split: sum.splits)

lemma build_unclaimed:
  "build_word_speaker_map segs m = Inr m' \<Longrightarrow>
   \<forall>s \<in> set segs. \<not> claims_time s t \<Longrightarrow> m' t = m t"
proof (induction segs arbitrary: m)
  case Nil
  then show ?case by simp
next
  case (Cons seg segs)
  from Cons.prems(1) obtain m1 where
    m1: "map_segment_items seg (get_or (seg_items seg) []) m = Inr m1"
    and rest: "build_word_speaker_map segs m1 = Inr m'"
    by (auto split: sum.splits)
  from Cons.prems(2) have "Some t \<notin> set (map seg_start_time (get_or (seg_items seg) []))"
    by (simp add: claims_time_def)
  with map_segment_items_lookup [OF m1, of t] have "m1 t = m t" by simp
  moreover from Cons.IH [OF rest] Cons.prems(2) have "m' t = m1 t" by simp
  ultimately show ?case by simp
qed

lemma build_last_claim:
  assumes "build_word_speaker_map (pre @ seg # post) m0 = Inr m"
    and "claims_time seg t"
    and "\<forall>s \<in> set post. \<not> claims_time s t"
  shows "\<exists>e. m t = Some e \<and> speaker_label seg = Some (entry_speaker e)"
proof -
  from assms(1) obtain m1 where "build_word_speaker_map pre m0 = Inr m1"
    and b: "build_word_speaker_map (seg # post) m1 = Inr m"
    by (auto simp: build_append split: sum.splits)
  from b obtain m2 where
    m2: "map_segment_items seg (get_or (seg_items seg) []) m1 = Inr m2"
    and rest: "build_word_speaker_map post m2 = Inr m"
    by (auto split: sum.splits)
  from map_segment_items_lookup [OF m2, of t] assms(2)
  have "\<exists>e. m2 t = Some e \<and> speaker_label seg = Some (entry_speaker e)"
    by (simp add: claims_time_def)
  moreover from build_unclaimed [OF rest assms(3)] have "m t = m2 t" .
  ultimately show ?thesis by simp
qed

text \<open>
  C7. When two segments claim the same start time, the lookup maps it to the speaker label
  of the later one: of the segments that claim the time, the last in iteration order wins.
\<close>

theorem later_segment_wins:
  assumes "build_word_speaker_map (pre @ earlier # mid @ later # post) Map.empty = Inr m"
    and "claims_time earlier t"
    and "claims_time later t"
    and "\<forall>s \<in> set post. \<not> claims_time s t"
  shows "\<exists>e. m t = Some e \<and> speaker_label later = Some (entry_speaker e)"
proof -
  from assms(1)
  have "build_word_speaker_map ((pre @ earlier # mid) @ later # post) Map.empty = Inr m"
    by simp
  from build_last_claim [OF this assms(3) assms(4)] show ?thesis .
qed

theorem later_segment_wins_witness:
  "build_word_speaker_map
     ([] @ segment_of ''spk_0'' [label_at 0 1, label_at 1 2] # [] @
        segment_of ''spk_1'' [label_at 1 3] # []) Map.empty = Inr ex_collision_map
   \<and> claims_time (segment_of ''spk_0'' [label_at 0 1, label_at 1 2]) 1
   \<and> claims_time (segment_of ''spk_1'' [label_at 1 3]) 1
   \<and> (\<exists>e. ex_collision_map 1 = Some e
          \<and> speaker_label (segment_of ''spk_1'' [label_at 1 3]) = Some (entry_speaker e))"
proof -
  have b: "build_word_speaker_map
     ([] @ segment_of ''spk_0'' [label_at 0 1, label_at 1 2] # [] @
        segment_of ''spk_1'' [label_at 1 3] # []) Map.empty = Inr ex_collision_map"
    by (simp add: ex_collision_map_def segment_of_def label_at_def get_or_def)
  have c1: "claims_time (segment_of ''spk_0'' [label_at 0 1, label_at 1 2]) 1"
    by (simp add: claims_time_def segment_of_def label_at_def get_or_def)
  have c2: "claims_time (segment_of ''spk_1'' [label_at 1 3]) 1"
    by (simp add: claims_time_def segment_of_def label_at_def get_or_def)
  have none: "\<forall>s \<in> set ([] :: real segment list). \<not> claims_time s 1"
    by simp
  from later_segment_wins [OF b c1 c2 none] b c1 c2 show ?thesis
    by blast
qed

section \<open>When the function returns\<close>

text \<open>A result is returned exactly when each part of the body returns.\<close>

lemma process_transcript_Inr:
  "process_transcript d = Inr r \<longleftrightarrow>
     (\<exists>formatted_text conv duration conf n.
        format_transcript d = Inr (formatted_text, conv)
        \<and> float_of (get_or (audio_duration (get_results d)) (IntNum 0)) = Inr duration
        \<and> calculate_avg_confidence (get_items d) = Inr conf
        \<and> count_speakers (get_segments d) = Inr n
        \<and> r = \<lparr>transcript = formatted_text, conversation = conv,
                 result_metadata =
                   \<lparr>duration_seconds = duration,
                    language = get_or (language_code (get_results d)) ''en-US'',
                    avg_confidence = conf,
                    job_name = get_or (jobName d) [],
                    job_status = get_or (status d) [],
                    speakers_identified = n\<rparr>\<rparr>)"
proof (cases "format_transcript d")
  case (Inl e)
  then show ?thesis by (simp add: process_transcript_def process_body_def)
next
  case ft: (Inr p)
  obtain formatted_text conv where p: "p = (formatted_text, conv)" by (cases p)
  show ?thesis
  proof (cases "float_of (get_or (audio_duration (get_results d)) (IntNum 0))")
    case (Inl e)
    with ft p show ?thesis by (simp add: process_transcript_def process_body_def)
  next
    case du: (Inr duration)
    show ?thesis
    proof (cases "calculate_avg_confidence (get_items d)")
      case (Inl e)
      with ft p du show ?thesis by (simp add: process_transcript_def process_body_def)
    next
      case co: (Inr conf)
      show ?thesis
      proof (cases "count_speakers (get_segments d)")
        case (Inl e)
        with ft p du co show ?thesis by (simp add: process_transcript_def process_body_def)
      next
        case (Inr n)
        with ft p du co show ?thesis
          by (auto simp: process_transcript_def process_body_def)
      qed
    qed
  qed
qed

lemma map_segment_items_returns:
  "(\<exists>m'. map_segment_items seg lis m = Inr m') \<longleftrightarrow>
     (lis = [] \<or>
      (speaker_label seg \<noteq> None \<and>
       list_all (\<lambda>li. seg_start_time li \<noteq> None \<and> seg_end_time li \<noteq> None) lis))"
proof (induction lis arbitrary: m)
  case Nil
  show ?case by simp
next
  case (Cons li lis)
  show ?case
  proof (cases "speaker_label seg \<noteq> None \<and> seg_end_time li \<noteq> None \<and> seg_start_time li \<noteq> None")
    case False
    then show ?thesis by (auto split: option.splits)
  next
    case True
    then obtain l e s where keys: "speaker_label seg = Some l" "seg_end_time li = Some e"
      "seg_start_time li = Some s"
      by auto
    let ?m1 = "m(s \<mapsto> \<lparr>entry_speaker = l, entry_end_time = e\<rparr>)"
    have step: "map_segment_items seg (li # lis) m = map_segment_items seg lis ?m1"
      using keys by simp
    have "(\<exists>m'. map_segment_items seg (li # lis) m = Inr m') \<longleftrightarrow>
          (\<exists>m'. map_segment_items seg lis ?m1 = Inr m')"
      by (simp only: step)
    also have "\<dots> \<longleftrightarrow>
          (lis = [] \<or>
           (speaker_label seg \<noteq> None \<and>
            list_all (\<lambda>li. seg_start_time li \<noteq> None \<and> seg_end_time li \<noteq> None) lis))"
      by (rule Cons.IH)
    also have "\<dots> \<longleftrightarrow>
          (li # lis = [] \<or>
           (speaker_label seg \<noteq> None \<and>
            list_all (\<lambda>li. seg_start_time li \<noteq> None \<and> seg_end_time li \<noteq> None) (li # lis)))"
      using True by auto
    finally show ?thesis .
  qed
qed

lemma build_returns:
  "(\<exists>m'. build_word_speaker_map segs m = Inr m') \<longleftrightarrow>
     list_all (\<lambda>seg. get_or (seg_items seg) [] = [] \<or> well_formed_segment seg) segs"
proof (induction segs arbitrary: m)
  case Nil
  show ?case by simp
next
  case (Cons seg segs)
  show ?case
  proof (cases "map_segment_items seg (get_or (seg_items seg) []) m")
    case (Inl e)
    with map_segment_items_returns [of seg "get_or (seg_items seg) []" m]
    show ?thesis by (auto simp: well_formed_segment_def)
  next
    case (Inr m1)
    with map_segment_items_returns [of seg "get_or (seg_items seg) []" m]
    have "get_or (seg_items seg) [] = [] \<or> well_formed_segment seg"
      by (auto simp: well_formed_segment_def)
    with Inr Cons.IH [of m1] show ?thesis by simp
  qed
qed

lemma segment_label_list_returns:
  "(\<exists>ls. segment_label_list segs = Inr ls) \<longleftrightarrow>
     list_all (\<lambda>seg. speaker_label seg \<noteq> None) segs"
  by (induction segs) (auto split: option.splits sum.splits)

lemma segment_label_list_set:
  "segment_label_list segs = Inr ls \<Longrightarrow>
   set ls = {l. \<exists>seg \<in> set segs. speaker_label seg = Some l}"
  by (induction segs arbitrary: ls) (auto split: option.splits sum.splits)

lemma segments_return:
  "(\<exists>p. format_transcript d = Inr p) \<and> (\<exists>n. count_speakers (get_segments d) = Inr n)
     \<longleftrightarrow> well_typed d"
proof (cases "get_segments d = []")
  case True
  then show ?thesis
    by (simp add: format_transcript_def count_speakers_def well_typed_def Let_def)
next
  case False
  have f: "(\<exists>p. format_transcript d = Inr p) \<longleftrightarrow>
           (\<exists>m. build_word_speaker_map (get_segments d) Map.empty = Inr m)"
    using False by (auto simp: format_transcript_def Let_def split: sum.splits)
  have c: "(\<exists>n. count_speakers (get_segments d) = Inr n) \<longleftrightarrow>
           (\<exists>ls. segment_label_list (get_segments d) = Inr ls)"
    using False by (auto simp: count_speakers_def split: sum.splits)
  have "list_all (\<lambda>seg. get_or (seg_items seg) [] = [] \<or> well_formed_segment seg) (get_segments d)
        \<and> list_all (\<lambda>seg. speaker_label seg \<noteq> None) (get_segments d)
        \<longleftrightarrow> list_all well_formed_segment (get_segments d)"
    by (auto simp: list_all_iff well_formed_segment_def)
  then show ?thesis
    by (simp only: f c build_returns segment_label_list_returns well_typed_def)
qed

lemma process_transcript_returns_iff:
  "(\<exists>r. process_transcript d = Inr r) \<longleftrightarrow> well_typed d \<and> numbers_convert d"
proof -
  have "(\<exists>r. process_transcript d = Inr r) \<longleftrightarrow>
        ((\<exists>p. format_transcript d = Inr p) \<and> (\<exists>n. count_speakers (get_segments d) = Inr n))
        \<and> (\<exists>f. float_of (get_or (audio_duration (get_results d)) (IntNum 0)) = Inr f)
        \<and> (\<exists>f. calculate_avg_confidence (get_items d) = Inr f)"
    by (auto simp: process_transcript_Inr)
  then show ?thesis
    by (simp only: segments_return float_of_returns calculate_avg_confidence_returns
          numbers_convert_def)
qed

text \<open>
  The handler is reached when a subscripted key is missing: a segment without its
  \<open>speaker_label\<close> gives the \<open>TranscriptionError\<close> that wraps the \<open>KeyError\<close>.
\<close>

lemma missing_label_raises:
  "\<not> well_typed ex_missing_label
   \<and> process_transcript ex_missing_label =
       Inl (TranscriptionError
              (''Failed to process transcript: '' @ [CHR 0x27] @ ''speaker_label'' @ [CHR 0x27]))"
  by (simp add: ex_missing_label_def well_typed_def well_formed_segment_def ev2)

text \<open>
  C8, as the code has it. On every well-typed payload whose numbers convert to float (the
  duration and the confidences are floats, or integers within the doubles),
  \<open>_process_transcript\<close> returns a result: it raises nothing, and the handler that raises
  \<open>TranscriptionError\<close> is not reached.
\<close>

theorem process_transcript_total:
  assumes "well_typed d" and "numbers_convert d"
  shows "(\<exists>r. process_transcript d = Inr r)
         \<and> (\<forall>e. process_transcript d \<noteq> Inl e)"
proof -
  from assms have "\<exists>r. process_transcript d = Inr r"
    by (simp add: process_transcript_returns_iff)
  then show ?thesis by auto
qed

theorem process_transcript_total_witness:
  "well_typed ex_two \<and> numbers_convert ex_two
   \<and> (\<exists>r. process_transcript ex_two = Inr r)
   \<and> (\<forall>e. process_transcript ex_two \<noteq> Inl e)"
proof -
  have h: "well_typed ex_two"
    by (simp add: well_typed_def well_formed_segment_def ev)
  have n: "numbers_convert ex_two"
    by (simp add: numbers_convert_def confidence_converts_def carried_confidence_def
          converts_def ev)
  from process_transcript_total [OF h n] h n show ?thesis by blast
qed

text \<open>
  A well-typed payload with the numeric duration \<open>10^400\<close>: \<open>float\<close> raises \<open>OverflowError\<close>,
  and the handler turns it into the \<open>TranscriptionError\<close>.
\<close>

theorem well_typed_overflow_counterexample:
  "well_typed ex_huge_duration
   \<and> audio_duration (get_results ex_huge_duration) = Some (IntNum (10 ^ 400))
   \<and> process_transcript ex_huge_duration =
       Inl (TranscriptionError
              ''Failed to process transcript: int too large to convert to float'')"
  by (simp add: ex_huge_duration_def well_typed_def well_formed_segment_def ev2)

section \<open>Conversation presence and the speaker count\<close>

text \<open>
  C6. With an empty or absent segment list, the result \<open>_process_transcript\<close> returns has
  \<open>conversation\<close> \<open>None\<close> and \<open>speakers_identified\<close> 0; with segments, \<open>speakers_identified\<close>
  is the number of distinct speaker labels in them.
\<close>

theorem no_segments_no_conversation:
  assumes "process_transcript d = Inr r"
  shows "(get_segments d = [] \<longrightarrow>
            conversation r = None \<and> speakers_identified (result_metadata r) = 0)
         \<and> (get_segments d \<noteq> [] \<longrightarrow>
              speakers_identified (result_metadata r) =
                card {l. \<exists>seg \<in> set (get_segments d). speaker_label seg = Some l})"
proof -
  from assms obtain formatted_text conv n
    where ft: "format_transcript d = Inr (formatted_text, conv)"
      and n: "count_speakers (get_segments d) = Inr n"
      and c: "conversation r = conv"
      and rn: "speakers_identified (result_metadata r) = n"
    by (auto simp: process_transcript_Inr)
  have empty: "conversation r = None \<and> speakers_identified (result_metadata r) = 0"
    if "get_segments d = []"
    using that ft n c rn by (simp add: format_transcript_def count_speakers_def Let_def)
  have count: "speakers_identified (result_metadata r) =
                card {l. \<exists>seg \<in> set (get_segments d). speaker_label seg = Some l}"
    if ne: "get_segments d \<noteq> []"
  proof -
    from n ne obtain ls where ls: "segment_label_list (get_segments d) = Inr ls"
      and "n = card (set ls)"
      by (auto simp: count_speakers_def split: sum.splits)
    with segment_label_list_set [OF ls] rn show ?thesis by simp
  qed
  from empty count show ?thesis by blast
qed

theorem no_segments_no_conversation_witness:
  "process_transcript ex_plain = Inr ex_plain_result
   \<and> get_segments ex_plain = []
   \<and> conversation ex_plain_result = None
   \<and> speakers_identified (result_metadata ex_plain_result) = 0
   \<and> process_transcript ex_two = Inr ex_two_result
   \<and> get_segments ex_two \<noteq> []
   \<and> speakers_identified (result_metadata ex_two_result) =
        card {l. \<exists>seg \<in> set (get_segments ex_two). speaker_label seg = Some l}
   \<and> speakers_identified (result_metadata ex_two_result) = 2"
proof -
  have p: "process_transcript ex_plain = Inr ex_plain_result"
    by (simp add: ex_plain_result_def ev)
  have e: "get_segments ex_plain = []" by (simp add: ev)
  have r: "process_transcript ex_two = Inr ex_two_result"
    by (simp add: ex_two_result_def ev)
  have n: "get_segments ex_two \<noteq> []" by (simp add: ev)
  have two: "speakers_identified (result_metadata ex_two_result) = 2"
    by (simp add: ex_two_result_def)
  from no_segments_no_conversation [OF p] no_segments_no_conversation [OF r] p e r n two
  show ?thesis by blast
qed

section \<open>The walk and its groups\<close>

lemma set_speaker_render: "set_speaker sp (render gs) = render (set_speaker_g sp gs)"
  by (cases "(sp, gs)" rule: set_speaker_g.cases) (auto simp: render_turn_def)

lemma append_word_render: "append_word item (render gs) = render (append_item_g item gs)"
  by (cases gs) (auto simp: word_of_def split: list.splits)

lemma walk_item_render: "walk_item m (render gs) item = render (walk_item_g m gs item)"
  by (simp add: walk_item_def walk_item_g_def is_pronunciation_def append_word_render
        set_speaker_render split: option.splits)

lemma walk_items_render: "walk_items m its (render gs) = render (walk_items_g m its gs)"
  by (induction its arbitrary: gs) (simp_all add: walk_item_render)

lemma add_last_render: "add_last_segment (render gs) = map render_turn (add_last_g gs)"
  by (cases gs rule: add_last_g.cases) (auto simp: render_turn_def)

lemma build_conversation_groups:
  "build_conversation m its = map render_turn (turn_groups m its)"
  using walk_items_render [of m its "([], None, [])"]
  by (simp add: build_conversation_def turn_groups_def add_last_render)

lemma flat_set_speaker: "flat (set_speaker_g sp gs) = flat gs"
  by (cases "(sp, gs)" rule: set_speaker_g.cases) auto

lemma flat_append_item:
  "flat (append_item_g item gs) =
     flat gs @ (if get_or (alternatives item) [] = [] then [] else [item])"
  by (cases gs) simp

lemma flat_walk_item: "flat (walk_item_g m gs item) = flat gs @ filter spoken [item]"
  by (simp add: walk_item_g_def spoken_def flat_append_item flat_set_speaker
        split: option.splits)

lemma flat_walk_items: "flat (walk_items_g m its gs) = flat gs @ filter spoken its"
proof (induction its arbitrary: gs)
  case Nil
  then show ?case by simp
next
  case (Cons item its)
  have "flat (walk_items_g m (item # its) gs) = flat (walk_item_g m gs item) @ filter spoken its"
    using Cons.IH by simp
  also have "\<dots> = flat gs @ filter spoken [item] @ filter spoken its"
    by (simp add: flat_walk_item)
  finally show ?case by simp
qed


lemma invar_set_speaker: "invar m gs \<Longrightarrow> invar m (set_speaker_g sp gs)"
  by (cases "(sp, gs)" rule: set_speaker_g.cases) (auto simp: group_ok_def)

lemma set_speaker_g_shape: "\<exists>groups buf. set_speaker_g sp gs = (groups, Some sp, buf)"
  by (cases "(sp, gs)" rule: set_speaker_g.cases) auto

lemma invar_walk_item: "invar m gs \<Longrightarrow> invar m (walk_item_g m gs item)"
proof (cases "resolve_speaker m item")
  case None
  assume "invar m gs"
  with None show ?thesis
    by (cases gs) (auto simp: walk_item_g_def)
next
  case (Some sp)
  assume inv: "invar m gs"
  then have "invar m (set_speaker_g sp gs)" by (rule invar_set_speaker)
  moreover obtain groups buf where "set_speaker_g sp gs = (groups, Some sp, buf)"
    using set_speaker_g_shape by blast
  ultimately show ?thesis
    using Some inv by (auto simp: walk_item_g_def)
qed

lemma invar_walk_items: "invar m gs \<Longrightarrow> invar m (walk_items_g m its gs)"
  by (induction its arbitrary: gs) (simp_all add: invar_walk_item)

lemma group_ok_add_last: "invar m gs \<Longrightarrow> g \<in> set (add_last_g gs) \<Longrightarrow> group_ok m g"
  by (cases gs rule: add_last_g.cases) (auto simp: group_ok_def split: if_splits)

lemma group_ok_turn_groups: "g \<in> set (turn_groups m its) \<Longrightarrow> group_ok m g"
proof -
  have "invar m ([], None, [])" by simp
  then have "invar m (walk_items_g m its ([], None, []))" by (rule invar_walk_items)
  then show "g \<in> set (turn_groups m its) \<Longrightarrow> group_ok m g"
    unfolding turn_groups_def by (rule group_ok_add_last)
qed

lemma cur_set_speaker: "cur_of (set_speaker_g sp gs) = Some sp"
  by (cases "(sp, gs)" rule: set_speaker_g.cases) auto

lemma cur_append_item: "cur_of (append_item_g item gs) = cur_of gs"
  by (cases gs) auto

lemma cur_walk_item:
  "cur_of (walk_item_g m gs item) =
     (if is_pronunciation item \<and> resolve_speaker m item \<noteq> None
      then resolve_speaker m item else cur_of gs)"
  by (auto simp: walk_item_g_def cur_append_item cur_set_speaker split: option.splits)

lemma cur_walk_items:
  "cur_of (walk_items_g m its gs) =
     (if resolved_speakers m its = [] then cur_of gs
      else Some (last (resolved_speakers m its)))"
proof (induction its arbitrary: gs)
  case Nil
  then show ?case by (simp add: resolved_speakers_def map_filter_simps)
next
  case (Cons item its)
  show ?case
  proof (cases "is_pronunciation item \<and> resolve_speaker m item \<noteq> None")
    case True
    then obtain sp where sp: "resolve_speaker m item = Some sp" by auto
    with True have rs: "resolved_speakers m (item # its) = sp # resolved_speakers m its"
      by (simp add: resolved_speakers_def map_filter_simps)
    have c: "cur_of (walk_item_g m gs item) = Some sp"
      using True sp by (simp add: cur_walk_item)
    show ?thesis
      using Cons.IH [of "walk_item_g m gs item"] by (simp add: rs c)
  next
    case False
    then have rs: "resolved_speakers m (item # its) = resolved_speakers m its"
      by (auto simp: resolved_speakers_def map_filter_simps)
    have c: "cur_of (walk_item_g m gs item) = cur_of gs"
      using False by (auto simp: cur_walk_item)
    show ?thesis
      using Cons.IH [of "walk_item_g m gs item"] by (simp add: rs c)
  qed
qed

lemma concat_add_last:
  "(\<exists>s. cur_of gs = Some s \<and> s \<noteq> []) \<Longrightarrow> concat (map snd (add_last_g gs)) = flat gs"
  by (cases gs rule: add_last_g.cases) auto

lemma concat_turn_groups:
  assumes "final_speaker m its = Some s" and "s \<noteq> []"
  shows "concat (map snd (turn_groups m its)) = filter spoken its"
proof -
  let ?gs = "walk_items_g m its ([], None, [])"
  have "cur_of ?gs = Some s"
    using assms(1) by (simp add: cur_walk_items final_speaker_def split: if_splits)
  with assms(2) have "concat (map snd (add_last_g ?gs)) = flat ?gs"
    by (simp add: concat_add_last)
  then show ?thesis
    by (simp add: turn_groups_def flat_walk_items)
qed

lemma join_append:
  "join sep (xs @ ys) =
     (if xs = [] then join sep ys
      else if ys = [] then join sep xs
      else join sep xs @ sep @ join sep ys)"
  by (induction sep xs rule: join.induct) (auto simp: neq_Nil_conv)

lemma join_concat:
  "\<forall>xs \<in> set xss. xs \<noteq> [] \<Longrightarrow> join sep (map (join sep) xss) = join sep (concat xss)"
proof (induction xss)
  case Nil
  then show ?case by simp
next
  case (Cons xs xss)
  then have ne: "xs \<noteq> []" and ih: "join sep (map (join sep) xss) = join sep (concat xss)"
    by simp_all
  have "join sep (map (join sep) (xs # xss)) = join sep ([join sep xs] @ map (join sep) xss)"
    by simp
  also have "\<dots> = (if xss = [] then join sep xs
                    else join sep xs @ sep @ join sep (map (join sep) xss))"
    by (simp only: join_append) simp
  also have "\<dots> = join sep (xs @ concat xss)"
    using ne Cons.prems ih by (auto simp: join_append neq_Nil_conv)
  finally show ?case by simp
qed

lemma join_turn_texts:
  assumes "\<forall>g \<in> set groups. snd g \<noteq> []"
  shows "join '' '' (map turn_text (map render_turn groups)) =
         join '' '' (map word_of (concat (map snd groups)))"
proof -
  have "map turn_text (map render_turn groups) =
        map (join '' '') (map (\<lambda>g. map word_of (snd g)) groups)"
    by (simp add: render_turn_def)
  moreover have "\<forall>xs \<in> set (map (\<lambda>g. map word_of (snd g)) groups). xs \<noteq> []"
    using assms by auto
  ultimately have "join '' '' (map turn_text (map render_turn groups)) =
        join '' '' (concat (map (\<lambda>g. map word_of (snd g)) groups))"
    by (simp only: join_concat)
  also have "concat (map (\<lambda>g. map word_of (snd g)) groups) =
             map word_of (concat (map snd groups))"
    by (simp add: map_concat comp_def)
  finally show ?thesis .
qed

lemma walk_items_unresolved:
  "\<forall>item \<in> set its. is_pronunciation item \<longrightarrow> resolve_speaker m item = None \<Longrightarrow>
   walk_items m its (conv, cur, buf) = (conv, cur, buf @ map word_of (filter spoken its))"
proof (induction its arbitrary: buf)
  case Nil
  then show ?case by simp
next
  case (Cons item its)
  have step: "walk_item m (conv, cur, buf) item = (conv, cur, buf @ map word_of (filter spoken [item]))"
    using Cons.prems
    by (auto simp: walk_item_def is_pronunciation_def spoken_def word_of_def split: list.splits)
  from Cons.prems have "\<forall>item \<in> set its. is_pronunciation item \<longrightarrow> resolve_speaker m item = None"
    by simp
  from Cons.IH [OF this] step show ?case by simp
qed

section \<open>The transcript text\<close>

lemma process_transcript_with_segments:
  assumes "process_transcript d = Inr r" and "get_segments d \<noteq> []"
  obtains m where "build_word_speaker_map (get_segments d) Map.empty = Inr m"
    and "conversation r = Some (build_conversation m (get_items d))"
    and "transcript r = join newline (map format_segment (build_conversation m (get_items d)))"
proof -
  from assms(1) obtain formatted_text conv
    where ft: "format_transcript d = Inr (formatted_text, conv)"
      and t: "transcript r = formatted_text" and c: "conversation r = conv"
    by (auto simp: process_transcript_Inr)
  show ?thesis
  proof (cases "build_word_speaker_map (get_segments d) Map.empty")
    case (Inl e)
    with ft assms(2) show ?thesis by (simp add: format_transcript_def Let_def)
  next
    case (Inr m)
    with ft assms(2) t c that [of m] show ?thesis
      by (auto simp: format_transcript_def Let_def)
  qed
qed

lemma process_transcript_without_segments:
  assumes "process_transcript d = Inr r" and "get_segments d = []"
  shows "transcript r = full_transcript d \<and> conversation r = None"
proof -
  from assms(1) obtain formatted_text conv
    where ft: "format_transcript d = Inr (formatted_text, conv)"
      and t: "transcript r = formatted_text" and c: "conversation r = conv"
    by (auto simp: process_transcript_Inr)
  with assms(2) show ?thesis by (simp add: format_transcript_def Let_def)
qed

text \<open>
  C1, as the code has it. In the result \<open>_process_transcript\<close> returns, the \<open>transcript\<close>
  field is, without speaker segments, the \<open>transcript\<close> texts of \<open>results.transcripts\<close> joined
  by single spaces, and with segments the conversation turns, each rendered as the line
  \<open>Doctor: text\<close> for the speaker \<open>spk_0\<close> and \<open>Patient: text\<close> for any other, joined by
  newlines.
\<close>

theorem transcript_is_formatted_text:
  assumes "process_transcript d = Inr r"
  shows "(get_segments d = [] \<longrightarrow>
            transcript r =
              join '' '' (map (\<lambda>t. get_or (chunk_transcript t) [])
                             (get_or (transcripts (get_results d)) [])))
         \<and> (get_segments d \<noteq> [] \<longrightarrow>
              (\<exists>conv. conversation r = Some conv \<and>
                 transcript r =
                   join [CHR 0x0A]
                     (map (\<lambda>turn. (if turn_speaker turn = ''spk_0'' then ''Doctor''
                                     else ''Patient'') @ '': '' @ turn_text turn) conv)))"
proof (intro conjI impI)
  assume "get_segments d = []"
  from process_transcript_without_segments [OF assms this]
  show "transcript r =
          join '' '' (map (\<lambda>t. get_or (chunk_transcript t) [])
                         (get_or (transcripts (get_results d)) []))"
    by (simp add: full_transcript_def)
next
  assume ne: "get_segments d \<noteq> []"
  have f: "format_segment =
      (\<lambda>turn. (if turn_speaker turn = ''spk_0'' then ''Doctor'' else ''Patient'')
                 @ '': '' @ turn_text turn)"
    by (rule ext) (simp add: format_segment_def)
  from process_transcript_with_segments [OF assms ne]
  obtain m where c: "conversation r = Some (build_conversation m (get_items d))"
    and t: "transcript r =
              join newline (map format_segment (build_conversation m (get_items d)))"
    by blast
  from t have "transcript r =
            join [CHR 0x0A]
              (map (\<lambda>turn. (if turn_speaker turn = ''spk_0'' then ''Doctor''
                              else ''Patient'') @ '': '' @ turn_text turn)
                 (build_conversation m (get_items d)))"
    by (simp only: f newline_def)
  with c show "\<exists>conv. conversation r = Some conv \<and>
          transcript r =
            join [CHR 0x0A]
              (map (\<lambda>turn. (if turn_speaker turn = ''spk_0'' then ''Doctor''
                              else ''Patient'') @ '': '' @ turn_text turn) conv)"
    by (intro exI [of _ "build_conversation m (get_items d)"] conjI)
qed

theorem transcript_is_formatted_text_witness:
  "process_transcript ex_plain = Inr ex_plain_result
   \<and> get_segments ex_plain = []
   \<and> get_or (transcripts (get_results ex_plain)) [] = []
   \<and> transcript ex_plain_result = []
   \<and> process_transcript ex_two = Inr ex_two_result
   \<and> get_segments ex_two \<noteq> []
   \<and> (\<exists>conv. conversation ex_two_result = Some conv \<and>
         transcript ex_two_result =
           join [CHR 0x0A]
             (map (\<lambda>turn. (if turn_speaker turn = ''spk_0'' then ''Doctor''
                             else ''Patient'') @ '': '' @ turn_text turn) conv))"
proof -
  have p: "process_transcript ex_plain = Inr ex_plain_result"
    by (simp add: ex_plain_result_def ev)
  have e: "get_segments ex_plain = []" by (simp add: ev)
  have t: "get_or (transcripts (get_results ex_plain)) [] = []" by (simp add: ev)
  have r: "process_transcript ex_two = Inr ex_two_result"
    by (simp add: ex_two_result_def ev)
  have n: "get_segments ex_two \<noteq> []" by (simp add: ev)
  from transcript_is_formatted_text [OF p] e t
  have x: "transcript ex_plain_result = []" by simp
  from transcript_is_formatted_text [OF r] n
  have y: "\<exists>conv. conversation ex_two_result = Some conv \<and>
         transcript ex_two_result =
           join [CHR 0x0A]
             (map (\<lambda>turn. (if turn_speaker turn = ''spk_0'' then ''Doctor''
                             else ''Patient'') @ '': '' @ turn_text turn) conv)"
    by (simp only: simp_thms)
  from p e t x r n y show ?thesis by (intro conjI)
qed

text \<open>
  With segments the transcript carries the role labels and newlines and is not the items'
  words joined by spaces; without segments and without a \<open>transcripts\<close> chunk it is empty
  whatever the items hold.
\<close>

theorem transcript_from_items_counterexample:
  "map_sum id transcript (process_transcript ex_two)
       = Inr (''Doctor: Hi there'' @ [CHR 0x0A] @ ''Patient: Hello'')
   \<and> join '' '' (map word_of (get_items ex_two)) = ''Hi there Hello''
   \<and> map_sum id transcript (process_transcript ex_two)
       \<noteq> Inr (join '' '' (map word_of (get_items ex_two)))
   \<and> map_sum id transcript (process_transcript ex_plain) = Inr []
   \<and> join '' '' (map word_of (get_items ex_plain)) = ''Hello world''"
  by (simp add: ev2)

section \<open>When no item resolves\<close>

lemma resolve_speaker_None:
  "resolve_speaker m item = None \<longleftrightarrow> (\<forall>t. start_time item = Some t \<longrightarrow> m t = None)"
  by (auto simp: resolve_speaker_def split: option.splits)

text \<open>
  C10. With a non-empty segment list and no pronunciation item whose start time is a key of
  the lookup, the current speaker is never set: the words are gathered in the buffer, no turn
  is emitted, and \<open>conversation\<close> is the empty list, present and not \<open>None\<close>.
\<close>

theorem unresolved_items_empty_conversation:
  assumes "process_transcript d = Inr r"
    and "get_segments d \<noteq> []"
    and "build_word_speaker_map (get_segments d) Map.empty = Inr m"
    and "\<forall>item \<in> set (get_items d).
           is_pronunciation item \<longrightarrow> (\<forall>t. start_time item = Some t \<longrightarrow> m t = None)"
  shows "conversation r = Some [] \<and> transcript r = []
         \<and> walk_items m (get_items d) ([], None, []) =
             ([], None, map word_of (filter spoken (get_items d)))"
proof -
  from assms(4) have un: "\<forall>item \<in> set (get_items d).
      is_pronunciation item \<longrightarrow> resolve_speaker m item = None"
    by (simp add: resolve_speaker_None)
  have w: "walk_items m (get_items d) ([], None, []) =
             ([], None, map word_of (filter spoken (get_items d)))"
    using walk_items_unresolved [OF un, of "[]" None "[]"] by simp
  then have c: "build_conversation m (get_items d) = []"
    by (simp add: build_conversation_def)
  obtain m' where m': "build_word_speaker_map (get_segments d) Map.empty = Inr m'"
    and conv: "conversation r = Some (build_conversation m' (get_items d))"
    and tr: "transcript r = join newline (map format_segment (build_conversation m' (get_items d)))"
    using process_transcript_with_segments [OF assms(1) assms(2)] by blast
  from m' assms(3) have "m' = m" by simp
  with conv tr c w show ?thesis by simp
qed

theorem unresolved_items_empty_conversation_witness:
  "get_segments ex_none \<noteq> []
   \<and> build_word_speaker_map (get_segments ex_none) Map.empty = Inr ex_unmatched_map
   \<and> is_pronunciation (word_at 7 ''A'' 1) \<and> ex_unmatched_map 7 = None
   \<and> is_pronunciation (word_at 8 ''B'' 1) \<and> ex_unmatched_map 8 = None
   \<and> process_transcript ex_none = Inr ex_none_result
   \<and> conversation ex_none_result = Some [] \<and> transcript ex_none_result = []
   \<and> walk_items ex_unmatched_map (get_items ex_none) ([], None, []) = ([], None, [''A'', ''B''])"
proof -
  have s: "get_segments ex_none \<noteq> []" by (simp add: ev2)
  have b: "build_word_speaker_map (get_segments ex_none) Map.empty = Inr ex_unmatched_map"
    by (simp add: ev2)
  have r: "process_transcript ex_none = Inr ex_none_result"
    by (simp add: ex_none_result_def ev2)
  have u: "\<forall>item \<in> set (get_items ex_none).
           is_pronunciation item \<longrightarrow> (\<forall>t. start_time item = Some t \<longrightarrow> ex_unmatched_map t = None)"
    by (simp add: ev2)
  have p: "is_pronunciation (word_at 7 ''A'' 1) \<and> ex_unmatched_map 7 = None
      \<and> is_pronunciation (word_at 8 ''B'' 1) \<and> ex_unmatched_map 8 = None"
    by (simp add: ev2)
  have f: "map word_of (filter spoken (get_items ex_none)) = [''A'', ''B'']"
    by (simp add: ev2)
  from unresolved_items_empty_conversation [OF r s b u] s b r p f show ?thesis
    by simp
qed

section \<open>The conversation turns\<close>

lemma set_add_last: "set (concat (map snd (add_last_g gs))) \<subseteq> set (flat gs)"
  by (cases gs rule: add_last_g.cases) auto

lemma turn_groups_spoken:
  assumes "g \<in> set (turn_groups m its)" and "item \<in> set (snd g)"
  shows "item \<in> set its \<and> spoken item"
proof -
  let ?gs = "walk_items_g m its ([], None, [])"
  from assms have "item \<in> set (concat (map snd (add_last_g ?gs)))"
    by (auto simp: turn_groups_def)
  with set_add_last [of ?gs] have "item \<in> set (flat ?gs)" by blast
  then show ?thesis by (simp add: flat_walk_items)
qed

lemma join_nonempty: "x \<in> set xs \<Longrightarrow> x \<noteq> [] \<Longrightarrow> join sep xs \<noteq> []"
  by (induction sep xs rule: join.induct) auto

text \<open>
  C4, as the code has it. Every turn is a speaker with a non-empty group of spoken items
  whose words, joined by single spaces, are its text; each item of the group that resolves
  in the lookup resolves to the turn's speaker. An item that does not resolve can stand in
  the group as well. The text is non-empty as soon as one word of the group is.
\<close>

theorem turn_has_word_and_speaker:
  assumes "process_transcript d = Inr r" and "get_segments d \<noteq> []"
  shows "\<exists>m groups.
           build_word_speaker_map (get_segments d) Map.empty = Inr m
           \<and> conversation r = Some (map render_turn groups)
           \<and> (\<forall>g \<in> set groups.
                 snd g \<noteq> []
                 \<and> (\<forall>item \<in> set (snd g).
                       item \<in> set (get_items d) \<and> spoken item
                       \<and> (resolve_speaker m item = None
                            \<or> resolve_speaker m item = Some (fst g)))
                 \<and> ((\<exists>item \<in> set (snd g). word_of item \<noteq> [])
                       \<longrightarrow> turn_text (render_turn g) \<noteq> []))"
proof -
  obtain m where m: "build_word_speaker_map (get_segments d) Map.empty = Inr m"
    and conv: "conversation r = Some (build_conversation m (get_items d))"
    using process_transcript_with_segments [OF assms] by blast
  let ?groups = "turn_groups m (get_items d)"
  have c: "conversation r = Some (map render_turn ?groups)"
    using conv by (simp add: build_conversation_groups)
  have "snd g \<noteq> []
        \<and> (\<forall>item \<in> set (snd g).
              item \<in> set (get_items d) \<and> spoken item
              \<and> (resolve_speaker m item = None \<or> resolve_speaker m item = Some (fst g)))
        \<and> ((\<exists>item \<in> set (snd g). word_of item \<noteq> []) \<longrightarrow> turn_text (render_turn g) \<noteq> [])"
    if g: "g \<in> set ?groups" for g
  proof -
    from group_ok_turn_groups [OF g]
    have ok: "snd g \<noteq> []"
      "\<forall>item \<in> set (snd g). resolve_speaker m item = None \<or> resolve_speaker m item = Some (fst g)"
      by (simp_all add: group_ok_def)
    have sp: "\<forall>item \<in> set (snd g). item \<in> set (get_items d) \<and> spoken item"
      using turn_groups_spoken [OF g] by blast
    have ne: "turn_text (render_turn g) \<noteq> []" if "\<exists>item \<in> set (snd g). word_of item \<noteq> []"
    proof -
      from that obtain item where "item \<in> set (snd g)" and "word_of item \<noteq> []" by blast
      then have "word_of item \<in> set (map word_of (snd g))" by simp
      from join_nonempty [OF this \<open>word_of item \<noteq> []\<close>]
      show ?thesis by (simp add: render_turn_def)
    qed
    from ok sp ne show ?thesis by blast
  qed
  with m c show ?thesis by blast
qed

theorem turn_has_word_and_speaker_witness:
  "process_transcript ex_unmatched = Inr ex_unmatched_result
   \<and> get_segments ex_unmatched \<noteq> []
   \<and> (\<exists>m groups.
         build_word_speaker_map (get_segments ex_unmatched) Map.empty = Inr m
         \<and> conversation ex_unmatched_result = Some (map render_turn groups)
         \<and> (\<forall>g \<in> set groups.
               snd g \<noteq> []
               \<and> (\<forall>item \<in> set (snd g).
                     item \<in> set (get_items ex_unmatched) \<and> spoken item
                     \<and> (resolve_speaker m item = None
                          \<or> resolve_speaker m item = Some (fst g)))
               \<and> ((\<exists>item \<in> set (snd g). word_of item \<noteq> [])
                     \<longrightarrow> turn_text (render_turn g) \<noteq> [])))"
proof -
  have r: "process_transcript ex_unmatched = Inr ex_unmatched_result"
    by (simp add: ex_unmatched_result_def ev2)
  have s: "get_segments ex_unmatched \<noteq> []" by (simp add: ev2)
  from turn_has_word_and_speaker [OF r s] r s show ?thesis by blast
qed

text \<open>
  The turn of \<open>spk_0\<close> holds the word \<open>B\<close>, whose start time resolves to no speaker.
\<close>

theorem turn_word_other_speaker_counterexample:
  "build_word_speaker_map (get_segments ex_unmatched) Map.empty = Inr ex_unmatched_map
   \<and> map_sum id conversation (process_transcript ex_unmatched) =
       Inr (Some [render_turn (''spk_0'', [word_at 0 ''A'' 1, word_at 5 ''B'' 1])])
   \<and> render_turn (''spk_0'', [word_at 0 ''A'' 1, word_at 5 ''B'' 1]) =
       \<lparr>turn_speaker = ''spk_0'', turn_text = ''A B''\<rparr>
   \<and> resolve_speaker ex_unmatched_map (word_at 5 ''B'' 1) \<noteq> Some ''spk_0''"
  by (simp add: ev2)

text \<open>
  C3, as the code has it. When some pronunciation item resolves and the last one that does
  has a non-empty speaker label, the turns' groups concatenated are the spoken items, resolved
  or not, in item order; so the turn texts joined by single spaces are the words of all
  spoken items joined by single spaces.
\<close>

theorem turn_texts_are_spoken_words:
  assumes "process_transcript d = Inr r" and "get_segments d \<noteq> []"
    and "build_word_speaker_map (get_segments d) Map.empty = Inr m"
    and "final_speaker m (get_items d) = Some s" and "s \<noteq> []"
  shows "\<exists>groups.
           conversation r = Some (map render_turn groups)
           \<and> concat (map snd groups) = filter spoken (get_items d)
           \<and> join '' '' (map turn_text (map render_turn groups)) =
               join '' '' (map word_of (filter spoken (get_items d)))"
proof -
  obtain m' where m': "build_word_speaker_map (get_segments d) Map.empty = Inr m'"
    and conv: "conversation r = Some (build_conversation m' (get_items d))"
    using process_transcript_with_segments [OF assms(1) assms(2)] by blast
  from m' assms(3) have mm: "m' = m" by simp
  let ?groups = "turn_groups m (get_items d)"
  have c: "conversation r = Some (map render_turn ?groups)"
    using conv mm by (simp add: build_conversation_groups)
  have cc: "concat (map snd ?groups) = filter spoken (get_items d)"
    using assms(4) assms(5) by (rule concat_turn_groups)
  have "\<forall>g \<in> set ?groups. snd g \<noteq> []"
    using group_ok_turn_groups [of _ m "get_items d"] by (auto simp: group_ok_def)
  then have "join '' '' (map turn_text (map render_turn ?groups)) =
             join '' '' (map word_of (concat (map snd ?groups)))"
    by (rule join_turn_texts)
  with c cc show ?thesis by auto
qed

theorem turn_texts_are_spoken_words_witness:
  "process_transcript ex_unmatched = Inr ex_unmatched_result
   \<and> get_segments ex_unmatched \<noteq> []
   \<and> build_word_speaker_map (get_segments ex_unmatched) Map.empty = Inr ex_unmatched_map
   \<and> final_speaker ex_unmatched_map (get_items ex_unmatched) = Some ''spk_0''
   \<and> (\<exists>groups.
         conversation ex_unmatched_result = Some (map render_turn groups)
         \<and> concat (map snd groups) = [word_at 0 ''A'' 1, word_at 5 ''B'' 1]
         \<and> join '' '' (map turn_text (map render_turn groups)) = ''A B'')"
proof -
  have r: "process_transcript ex_unmatched = Inr ex_unmatched_result"
    by (simp add: ex_unmatched_result_def ev2)
  have s: "get_segments ex_unmatched \<noteq> []" by (simp add: ev2)
  have b: "build_word_speaker_map (get_segments ex_unmatched) Map.empty = Inr ex_unmatched_map"
    by (simp add: ev2)
  have f: "final_speaker ex_unmatched_map (get_items ex_unmatched) = Some ''spk_0''"
    by (simp add: final_speaker_def resolved_speakers_def map_filter_simps ev2)
  have n: "''spk_0'' \<noteq> []" by simp
  have sp: "filter spoken (get_items ex_unmatched) = [word_at 0 ''A'' 1, word_at 5 ''B'' 1]"
    by (simp add: ev2)
  have w: "join '' '' (map word_of (filter spoken (get_items ex_unmatched))) = ''A B''"
    by (simp add: ev2)
  from turn_texts_are_spoken_words [OF r s b f n] r s b f sp w show ?thesis
    by simp
qed

text \<open>
  The turn texts give \<open>A B\<close>, the words of the resolved items only \<open>A\<close>.
\<close>

theorem turn_texts_resolved_only_counterexample:
  "build_word_speaker_map (get_segments ex_unmatched) Map.empty = Inr ex_unmatched_map
   \<and> map_sum id conversation (process_transcript ex_unmatched) =
       Inr (Some [\<lparr>turn_speaker = ''spk_0'', turn_text = ''A B''\<rparr>])
   \<and> join '' '' (map turn_text [\<lparr>turn_speaker = ''spk_0'', turn_text = ''A B''\<rparr>]) = ''A B''
   \<and> join '' '' (resolved_words ex_unmatched_map (get_items ex_unmatched)) = ''A''"
  by (simp add: ev2)

text \<open>
  C2, as the code has it. A spoken item whose start time is no key of the lookup leaves
  the conversation and the current speaker as they are and has its word appended to the
  buffer; when some pronunciation item resolves and the last one that does has a non-empty
  speaker label, the item stands in the group of a conversation turn.
\<close>

theorem unresolved_word_stays_in_turn:
  assumes "process_transcript d = Inr r" and "get_segments d \<noteq> []"
    and "build_word_speaker_map (get_segments d) Map.empty = Inr m"
    and "item \<in> set (get_items d)" and "spoken item"
    and "resolve_speaker m item = None"
    and "final_speaker m (get_items d) = Some s" and "s \<noteq> []"
  shows "(\<exists>groups g.
            conversation r = Some (map render_turn groups)
            \<and> g \<in> set groups \<and> item \<in> set (snd g))
         \<and> walk_item m (conv, cur, buf) item = (conv, cur, buf @ [word_of item])"
proof -
  obtain m' where m': "build_word_speaker_map (get_segments d) Map.empty = Inr m'"
    and conv: "conversation r = Some (build_conversation m' (get_items d))"
    using process_transcript_with_segments [OF assms(1) assms(2)] by blast
  from m' assms(3) have mm: "m' = m" by simp
  let ?groups = "turn_groups m (get_items d)"
  have c: "conversation r = Some (map render_turn ?groups)"
    using conv mm by (simp add: build_conversation_groups)
  have "concat (map snd ?groups) = filter spoken (get_items d)"
    using assms(7) assms(8) by (rule concat_turn_groups)
  with assms(4) assms(5) have "item \<in> set (concat (map snd ?groups))" by simp
  then obtain g where "g \<in> set ?groups" and "item \<in> set (snd g)" by auto
  with c have first: "\<exists>groups g. conversation r = Some (map render_turn groups)
            \<and> g \<in> set groups \<and> item \<in> set (snd g)"
    by blast
  have step: "walk_item m (conv, cur, buf) item = (conv, cur, buf @ [word_of item])"
    using assms(5) assms(6)
    by (auto simp: walk_item_def spoken_def is_pronunciation_def word_of_def split: list.splits)
  from first step show ?thesis by blast
qed

theorem unresolved_word_stays_in_turn_witness:
  "process_transcript ex_unmatched = Inr ex_unmatched_result
   \<and> get_segments ex_unmatched \<noteq> []
   \<and> build_word_speaker_map (get_segments ex_unmatched) Map.empty = Inr ex_unmatched_map
   \<and> word_at 5 ''B'' 1 \<in> set (get_items ex_unmatched)
   \<and> spoken (word_at 5 ''B'' 1)
   \<and> resolve_speaker ex_unmatched_map (word_at 5 ''B'' 1) = None
   \<and> final_speaker ex_unmatched_map (get_items ex_unmatched) = Some ''spk_0''
   \<and> (\<exists>groups g.
          conversation ex_unmatched_result = Some (map render_turn groups)
          \<and> g \<in> set groups \<and> word_at 5 ''B'' 1 \<in> set (snd g))
   \<and> walk_item ex_unmatched_map ([], Some ''spk_0'', [''A'']) (word_at 5 ''B'' 1) =
        ([], Some ''spk_0'', [''A'', ''B''])"
proof -
  have r: "process_transcript ex_unmatched = Inr ex_unmatched_result"
    by (simp add: ex_unmatched_result_def ev2)
  have s: "get_segments ex_unmatched \<noteq> []" by (simp add: ev2)
  have b: "build_word_speaker_map (get_segments ex_unmatched) Map.empty = Inr ex_unmatched_map"
    by (simp add: ev2)
  have i: "word_at 5 ''B'' 1 \<in> set (get_items ex_unmatched)" by (simp add: ev2)
  have sp: "spoken (word_at 5 ''B'' 1)" by (simp add: ev2)
  have u: "resolve_speaker ex_unmatched_map (word_at 5 ''B'' 1) = None" by (simp add: ev2)
  have f: "final_speaker ex_unmatched_map (get_items ex_unmatched) = Some ''spk_0''"
    by (simp add: final_speaker_def resolved_speakers_def map_filter_simps ev2)
  have n: "''spk_0'' \<noteq> []" by simp
  have w: "word_of (word_at 5 ''B'' 1) = ''B''" by (simp add: ev2)
  from unresolved_word_stays_in_turn [OF r s b i sp u f n, of "[]" "Some ''spk_0''" "[''A'']"]
    r s b i sp u f w
  show ?thesis by simp
qed

text \<open>
  The word \<open>B\<close>, at a start time that no segment claims, is in the text of the turn.
\<close>

theorem unresolved_word_excluded_counterexample:
  "build_word_speaker_map (get_segments ex_unmatched) Map.empty = Inr ex_unmatched_map
   \<and> is_pronunciation (word_at 5 ''B'' 1)
   \<and> resolve_speaker ex_unmatched_map (word_at 5 ''B'' 1) = None
   \<and> map_sum id conversation (process_transcript ex_unmatched) =
       Inr (Some [\<lparr>turn_speaker = ''spk_0'',
                   turn_text = join '' '' [word_of (word_at 0 ''A'' 1),
                                          word_of (word_at 5 ''B'' 1)]\<rparr>])
   \<and> word_of (word_at 5 ''B'' 1) = ''B''"
  by (simp add: ev2)

section \<open>Waiting for the job\<close>















text \<open>
  A delay beyond the clock's range is refused at the first pending check, as a negative one
  is, with an exception that is no \<open>TranscriptionError\<close>.
\<close>

lemma huge_delay_raises:
  "wait_for_transcription_job ex_sleep_limit 2 (10 ^ 10) ex_poll ''j'' =
     (Inl (OverflowError ''timestamp too large to convert to C _PyTime_t''), [Check])"
  by (simp add: wait_for_transcription_job_def eval_nat_numeral ex_poll_def job_of_def
        py_sleep_def ex_sleep_limit_def)




end
